theory Spec2Isabelle
  imports Main
begin

section \<open>Python strings\<close>

text \<open>
  A Python \<open>str\<close> is a sequence of Unicode code points. The model uses HOL strings, whose
  characters are the code points 0 to 255 (the Latin-1 range); \<open>of_char\<close> gives the code
  point. The character classes below are the ones of \<open>str.isalnum\<close>, \<open>str.isspace\<close> and
  \<open>str.splitlines\<close> restricted to that range.
\<close>

definition str_isalnum :: "char \<Rightarrow> bool" where
  "str_isalnum c =
     (let n = (of_char c :: nat) in
        (48 \<le> n \<and> n \<le> 57) \<or> (65 \<le> n \<and> n \<le> 90) \<or> (97 \<le> n \<and> n \<le> 122) \<or>
        n = 170 \<or> n = 178 \<or> n = 179 \<or> n = 181 \<or> n = 185 \<or> n = 186 \<or>
        (188 \<le> n \<and> n \<le> 190) \<or> (192 \<le> n \<and> n \<le> 214) \<or>
        (216 \<le> n \<and> n \<le> 246) \<or> (248 \<le> n \<and> n \<le> 255))"

definition str_isspace :: "char \<Rightarrow> bool" where
  "str_isspace c =
     (let n = (of_char c :: nat) in
        (9 \<le> n \<and> n \<le> 13) \<or> (28 \<le> n \<and> n \<le> 32) \<or> n = 133 \<or> n = 160)"

text \<open>\<open>s.strip()\<close>: drop the leading and the trailing whitespace.\<close>

definition str_strip :: "string \<Rightarrow> string" where
  "str_strip s = rev (dropWhile str_isspace (rev (dropWhile str_isspace s)))"

text \<open>The ASCII class \<open>[A-Za-z0-9 _-]\<close> that the specification names.\<close>

definition ascii_name_char :: "char \<Rightarrow> bool" where
  "ascii_name_char c =
     (let n = (of_char c :: nat) in
        (48 \<le> n \<and> n \<le> 57) \<or> (65 \<le> n \<and> n \<le> 90) \<or> (97 \<le> n \<and> n \<le> 122) \<or>
        c = CHR '' '' \<or> c = CHR ''_'' \<or> c = CHR ''-'')"

section \<open>Filename sanitizer\<close>

text \<open>
  \<^verbatim>\<open>def sanitize_filename(s): return "".join(c for c in s if c.isalnum() or c in " _-").strip()\<close>
\<close>

definition keep_char :: "char \<Rightarrow> bool" where
  "keep_char c = (str_isalnum c \<or> c \<in> set '' _-'')"

definition sanitize_filename :: "string \<Rightarrow> string" where
  "sanitize_filename s = str_strip (filter keep_char s)"

section \<open>Errors\<close>

text \<open>The exceptions that the modelled code can raise.\<close>

datatype py_error = AttributeError | NameError | IndexError | KeyError | ValueError | CsvError

section \<open>More string operations\<close>

abbreviation CR :: char where "CR \<equiv> CHR 0x0D"
abbreviation LF :: char where "LF \<equiv> CHR 0x0A"
abbreviation DQUOTE :: char where "DQUOTE \<equiv> CHR 0x22"

text \<open>\<open>sep.join(xs)\<close>\<close>

fun str_join :: "string \<Rightarrow> string list \<Rightarrow> string" where
  "str_join sep [] = []"
| "str_join sep [x] = x"
| "str_join sep (x # y # ys) = x @ sep @ str_join sep (y # ys)"

text \<open>\<open>sub in s\<close>\<close>

fun str_contains :: "string \<Rightarrow> string \<Rightarrow> bool" where
  "str_contains sub [] = (sub = [])"
| "str_contains sub (c # s) = (take (length sub) (c # s) = sub \<or> str_contains sub s)"

text \<open>
  \<open>s.split(":", 1)[1]\<close>: the text after the first colon; without a colon the split has
  one element and the index raises \<open>IndexError\<close>.
\<close>

fun after_first_colon :: "string \<Rightarrow> py_error + string" where
  "after_first_colon [] = Inl IndexError"
| "after_first_colon (c # s) = (if c = CHR '':'' then Inr s else after_first_colon s)"

text \<open>
  \<open>s.splitlines()\<close>: the line boundaries in the Latin-1 range are \<open>\n\<close>, \<open>\r\<close>, \<open>\r\n\<close>,
  \<open>\x0b\<close>, \<open>\x0c\<close>, \<open>\x1c\<close>, \<open>\x1d\<close>, \<open>\x1e\<close> and \<open>\x85\<close>; the boundaries are dropped and
  a final boundary does not start another line.
\<close>

definition line_boundary :: "char \<Rightarrow> bool" where
  "line_boundary c =
     (let n = (of_char c :: nat) in (10 \<le> n \<and> n \<le> 13) \<or> (28 \<le> n \<and> n \<le> 30) \<or> n = 133)"

fun splitlines_from :: "string \<Rightarrow> string \<Rightarrow> string list" where
  "splitlines_from cur [] = (if cur = [] then [] else [cur])"
| "splitlines_from cur [c] = (if line_boundary c then [cur] else [cur @ [c]])"
| "splitlines_from cur (c # c' # s) =
     (if c = CR \<and> c' = LF then cur # splitlines_from [] s
      else if line_boundary c then cur # splitlines_from [] (c' # s)
      else splitlines_from (cur @ [c]) (c' # s))"

definition splitlines :: "string \<Rightarrow> string list" where
  "splitlines s = splitlines_from [] s"

section \<open>Parsed documents\<close>

text \<open>
  The parsed document that \<open>BeautifulSoup(resp.text, "html.parser")\<close> returns, as far as the
  program reads it: a tree of tags (a name and the list of children) and strings.
  Attributes are left out. A string has the class that the parser gave it: plain text is
  a \<open>NavigableString\<close>; a comment, a declaration, a doctype, a processing instruction and
  a CDATA section have classes of their own; and the text inside \<open>rt\<close>, \<open>rp\<close>, \<open>style\<close>,
  \<open>script\<close> and \<open>template\<close> has the class of its container. A \<open>soup\<close> is the list of the
  top-level nodes.
\<close>

datatype string_class =
  NavigableString | CData | Comment | Declaration | Doctype | ProcessingInstruction |
  RubyTextString | RubyParenthesisString | Stylesheet | Script | TemplateString

datatype node = Str string_class string | Tag string "node list"

abbreviation Text :: "string \<Rightarrow> node" where
  "Text s \<equiv> Str NavigableString s"

type_synonym soup = "node list"

fun is_tag :: "string list \<Rightarrow> node \<Rightarrow> bool" where
  "is_tag names (Str k s) = False"
| "is_tag names (Tag n cs) = (n \<in> set names)"

fun contents :: "node \<Rightarrow> node list" where
  "contents (Str k s) = []"
| "contents (Tag n cs) = cs"

text \<open>
  The strings that \<open>.text\<close> and \<open>get_text\<close> of a tag collect are the strings below it, in
  document order, whose class is one of the interesting classes of that tag: the class
  of its container for the five tags above, else plain text and CDATA. So a comment is
  never part of the text, and the text of a script is part of the text of the \<open>script\<close>
  tag only. \<open>.text\<close> joins the strings, \<open>get_text(separator)\<close> joins them with the
  separator. The program takes the text of tags only; the text of a string is the
  string itself when it is plain text or CDATA, else empty.
\<close>

definition interesting_string_types :: "string \<Rightarrow> string_class list" where
  "interesting_string_types name =
     (if name = ''rt'' then [RubyTextString]
      else if name = ''rp'' then [RubyParenthesisString]
      else if name = ''style'' then [Stylesheet]
      else if name = ''script'' then [Script]
      else if name = ''template'' then [TemplateString]
      else [NavigableString, CData])"

primrec all_strings :: "string_class list \<Rightarrow> node \<Rightarrow> string list" where
  "all_strings types (Str k s) = (if k \<in> set types then [s] else [])"
| "all_strings types (Tag n cs) = concat (map (all_strings types) cs)"

fun strings_of :: "node \<Rightarrow> string list" where
  "strings_of (Tag n cs) = all_strings (interesting_string_types n) (Tag n cs)"
| "strings_of (Str k s) = all_strings [NavigableString, CData] (Str k s)"

definition text_of :: "node \<Rightarrow> string" where
  "text_of x = concat (strings_of x)"

definition get_text :: "string \<Rightarrow> node \<Rightarrow> string" where
  "get_text separator x = str_join separator (strings_of x)"

text \<open>
  \<open>tag.find(text=True, recursive=False)\<close>: the first child that is a string, of whatever
  class (a comment too), or \<open>None\<close>.
\<close>

fun first_string :: "node list \<Rightarrow> string option" where
  "first_string [] = None"
| "first_string (Str k s # rest) = Some s"
| "first_string (Tag n cs # rest) = first_string rest"

text \<open>
  The tags of a forest in document order (a tag, then the tags below it, then the ones
  after it), each with the nodes that follow it under the same parent.
\<close>

function (sequential) walk :: "node list \<Rightarrow> (node \<times> node list) list" where
  "walk [] = []"
| "walk (Str k s # rest) = walk rest"
| "walk (Tag n cs # rest) = (Tag n cs, rest) # walk cs @ walk rest"
  by pat_completeness auto
termination
  by (relation "measure (size_list size)") auto

text \<open>
  An element as the program navigates from it: the tag itself, its following siblings
  (\<open>find_next_sibling\<close>) and the tags after it in document order (\<open>find_next\<close>; the tags
  below it come first).
\<close>

record element =
  el :: node
  next_siblings :: "node list"
  next_elements :: "node list"

fun attach_next :: "(node \<times> node list) list \<Rightarrow> element list" where
  "attach_next [] = []"
| "attach_next ((t, sibs) # rest) =
     \<lparr>el = t, next_siblings = sibs, next_elements = map fst rest\<rparr> # attach_next rest"

definition descendants :: "soup \<Rightarrow> element list" where
  "descendants doc = attach_next (walk doc)"

definition find_all :: "string list \<Rightarrow> soup \<Rightarrow> element list" where
  "find_all names doc = filter (\<lambda>e. is_tag names (el e)) (descendants doc)"

definition find_first :: "string \<Rightarrow> soup \<Rightarrow> element option" where
  "find_first name doc = List.find (\<lambda>e. is_tag [name] (el e)) (descendants doc)"

definition find_next_sibling :: "string \<Rightarrow> element \<Rightarrow> node option" where
  "find_next_sibling name e = List.find (is_tag [name]) (next_siblings e)"

definition find_next :: "string \<Rightarrow> element \<Rightarrow> node option" where
  "find_next name e = List.find (is_tag [name]) (next_elements e)"

text \<open>\<open>tag.findAll(name)\<close> on a tag: the tags of that name below it.\<close>

definition findAll :: "string \<Rightarrow> node \<Rightarrow> node list" where
  "findAll name x = filter (is_tag [name]) (map fst (walk (contents x)))"

section \<open>Metadata scraper\<close>

record metadata =
  mod_id :: string
  md5 :: string
  format :: string
  channels :: string
  genre :: string
  artist :: string

text \<open>
  The first statement of \<open>scrape_metadata\<close>, \<^verbatim>\<open>info_div = soup.find("##", text="Info")\<close>,
  looks for a tag named \<open>##\<close>; its result is never read, and it is left out.
\<close>

text \<open>
  The first loop of \<open>scrape_metadata\<close>: the first heading among \<open>h6\<close>, \<open>h3\<close>, \<open>h2\<close>, \<open>h4\<close>
  whose stripped text is \<open>Info\<close> decides the info section, its next sibling \<open>ul\<close> or else
  the next \<open>p\<close>; the loop stops there.
\<close>

fun info_section_of :: "element list \<Rightarrow> node option" where
  "info_section_of [] = None"
| "info_section_of (header # rest) =
     (if str_strip (text_of (el header)) = ''Info''
      then (case find_next_sibling ''ul'' header of
              Some u \<Rightarrow> Some u
            | None \<Rightarrow> find_next ''p'' header)
      else info_section_of rest)"

text \<open>One line of the info section: the \<open>if\<close>/\<open>elif\<close> chain over the labels.\<close>

definition scan_line :: "string \<Rightarrow> metadata \<Rightarrow> py_error + metadata" where
  "scan_line line data =
     (if str_contains ''Mod Archive ID:'' line then
        (case after_first_colon line of Inl e \<Rightarrow> Inl e
         | Inr v \<Rightarrow> Inr (data\<lparr>mod_id := str_strip v\<rparr>))
      else if str_contains ''MD5:'' line then
        (case after_first_colon line of Inl e \<Rightarrow> Inl e
         | Inr v \<Rightarrow> Inr (data\<lparr>md5 := str_strip v\<rparr>))
      else if str_contains ''Format:'' line then
        (case after_first_colon line of Inl e \<Rightarrow> Inl e
         | Inr v \<Rightarrow> Inr (data\<lparr>format := str_strip v\<rparr>))
      else if str_contains ''Channels:'' line then
        (case after_first_colon line of Inl e \<Rightarrow> Inl e
         | Inr v \<Rightarrow> Inr (data\<lparr>channels := str_strip v\<rparr>))
      else if str_contains ''Genre:'' line then
        (case after_first_colon line of Inl e \<Rightarrow> Inl e
         | Inr v \<Rightarrow> Inr (data\<lparr>genre := str_strip v\<rparr>))
      else Inr data)"

fun scan_lines :: "string list \<Rightarrow> metadata \<Rightarrow> py_error + metadata" where
  "scan_lines [] data = Inr data"
| "scan_lines (line # rest) data =
     (case scan_line line data of Inl e \<Rightarrow> Inl e | Inr data' \<Rightarrow> scan_lines rest data')"

text \<open>
  The second loop, over every \<open>h2\<close>, without a \<open>break\<close>. The direct text of the heading,
  its first child that is a string (a comment too), is stripped at once, so a heading
  with no string among its children raises \<open>AttributeError\<close> (\<open>None.strip()\<close>).
\<close>

definition artists_of :: "node \<Rightarrow> string" where
  "artists_of artists_ul = str_join '', '' (map (\<lambda>li. str_strip (text_of li)) (findAll ''li'' artists_ul))"

fun artist_loop :: "element list \<Rightarrow> metadata \<Rightarrow> py_error + metadata" where
  "artist_loop [] data = Inr data"
| "artist_loop (header # rest) data =
     (case first_string (contents (el header)) of
        None \<Rightarrow> Inl AttributeError
      | Some t \<Rightarrow>
          if str_strip t = ''Registered Artist(s):'' then
            (case find_next_sibling ''ul'' header of
               Some artists_ul \<Rightarrow> artist_loop rest (data\<lparr>artist := artists_of artists_ul\<rparr>)
             | None \<Rightarrow> artist_loop rest data)
          else artist_loop rest data)"

definition unknown_metadata :: metadata where
  "unknown_metadata =
     \<lparr>mod_id = ''Unknown'', md5 = ''Unknown'', format = ''Unknown'',
      channels = ''Unknown'', genre = ''Unknown'', artist = ''Unknown''\<rparr>"

definition scrape_metadata :: "soup \<Rightarrow> py_error + metadata" where
  "scrape_metadata doc =
     (let info_section = info_section_of (find_all [''h6'', ''h3'', ''h2'', ''h4''] doc);
          data = unknown_metadata
      in case (case info_section of
                 None \<Rightarrow> Inr data
               | Some sec \<Rightarrow> scan_lines (splitlines (get_text [LF] sec)) data) of
           Inl e \<Rightarrow> Inl e
         | Inr data' \<Rightarrow> artist_loop (find_all [''h2''] doc) data')"

section \<open>Title resolution of the orchestrator\<close>

text \<open>
  Lines 94 and 95 of \<open>main\<close>. The fallback \<^verbatim>\<open>f"module_{mod_id}"\<close> reads the name \<open>mod_id\<close>,
  which is bound neither in \<open>main\<close> nor in the module (the argument is \<open>args.mod_id\<close>), so
  evaluating it raises \<open>NameError\<close>.
\<close>

definition title_header_of :: "soup \<Rightarrow> element option" where
  "title_header_of doc =
     (case find_first ''h1'' doc of Some h \<Rightarrow> Some h | None \<Rightarrow> find_first ''h2'' doc)"

definition resolve_title :: "soup \<Rightarrow> string option \<Rightarrow> py_error + string" where
  "resolve_title doc name =
     (case name of
        Some n \<Rightarrow> Inr n
      | None \<Rightarrow>
          (case title_header_of doc of
             Some title_header \<Rightarrow>
               (case first_string (contents (el title_header)) of
                  None \<Rightarrow> Inl AttributeError
                | Some t \<Rightarrow> Inr (str_strip t))
           | None \<Rightarrow> Inl NameError))"

section \<open>The csv module\<close>

text \<open>
  Files are opened with \<open>newline=""\<close>, so the text written is the text stored, and the
  dialect is the default one (\<open>excel\<close>) but for the delimiter: quote character \<open>"\<close>,
  doubled inside a quoted field, minimal quoting, line terminator \<open>\r\n\<close>, no escape
  character, no skipping of initial spaces, not strict. The program never changes
  \<open>csv.field_size_limit\<close>, so the reader refuses a field of more than 131072
  characters. The module is the one of CPython 3.11 (earlier versions also refuse a line
  with a NUL character).
\<close>

subsection \<open>Writer\<close>

text \<open>
  A field is quoted when it holds the delimiter, the quote character or a character of
  the line terminator; a record that would be empty (one empty field) is written as a
  quoted empty field.
\<close>

definition needs_quotes :: "char \<Rightarrow> string \<Rightarrow> bool" where
  "needs_quotes delimiter f =
     (\<exists>c \<in> set f. c = delimiter \<or> c = DQUOTE \<or> c = CR \<or> c = LF)"

fun double_quotes :: "string \<Rightarrow> string" where
  "double_quotes [] = []"
| "double_quotes (c # s) = (if c = DQUOTE then [DQUOTE, DQUOTE] else [c]) @ double_quotes s"

definition write_field :: "char \<Rightarrow> string \<Rightarrow> string" where
  "write_field delimiter f =
     (if needs_quotes delimiter f then [DQUOTE] @ double_quotes f @ [DQUOTE] else f)"

definition writerow :: "char \<Rightarrow> string list \<Rightarrow> string" where
  "writerow delimiter row =
     (if row = [[]] then [DQUOTE, DQUOTE]
      else str_join [delimiter] (map (write_field delimiter) row)) @ [CR, LF]"

subsection \<open>Reader\<close>

text \<open>
  The reader is the state machine of the module (\<open>parse_process_char\<close>): it is fed the
  characters of each line that the file yields and, after each line, the end-of-line
  marker. The states of the escape character are left out, the dialect having none.
  Adding a character to a field that has \<open>field_size_limit\<close> characters already raises
  \<open>_csv.Error\<close>, and so does a character other than a line ending after the end of a
  record.
\<close>

datatype parser_state =
  START_RECORD | START_FIELD | IN_FIELD | IN_QUOTED_FIELD | QUOTE_IN_QUOTED_FIELD | EAT_CRNL

datatype input = Ch char | EOL

record reader =
  state :: parser_state
  row_fields :: "string list"
  cur_field :: string

definition parse_reset :: reader where
  "parse_reset = \<lparr>state = START_RECORD, row_fields = [], cur_field = []\<rparr>"

definition parse_save_field :: "reader \<Rightarrow> reader" where
  "parse_save_field r = r\<lparr>row_fields := row_fields r @ [cur_field r], cur_field := []\<rparr>"

definition field_size_limit :: nat where
  "field_size_limit = 131072"

definition parse_add_char :: "reader \<Rightarrow> char \<Rightarrow> py_error + reader" where
  "parse_add_char r c =
     (if field_size_limit \<le> length (cur_field r) then Inl CsvError
      else Inr (r\<lparr>cur_field := cur_field r @ [c]\<rparr>))"

text \<open>\<^verbatim>\<open>if (parse_add_char(self, c) < 0) return -1; self->state = s;\<close>\<close>

definition then_state :: "py_error + reader \<Rightarrow> parser_state \<Rightarrow> py_error + reader" where
  "then_state res s = (case res of Inl e \<Rightarrow> Inl e | Inr r \<Rightarrow> Inr (r\<lparr>state := s\<rparr>))"

definition is_newline :: "input \<Rightarrow> bool" where
  "is_newline c = (c = Ch LF \<or> c = Ch CR)"

definition start_field :: "char \<Rightarrow> reader \<Rightarrow> input \<Rightarrow> py_error + reader" where
  "start_field delimiter r c =
     (if is_newline c \<or> c = EOL then
        Inr ((parse_save_field r)\<lparr>state := (if c = EOL then START_RECORD else EAT_CRNL)\<rparr>)
      else if c = Ch DQUOTE then Inr (r\<lparr>state := IN_QUOTED_FIELD\<rparr>)
      else if c = Ch delimiter then Inr (parse_save_field r)
      else (case c of Ch x \<Rightarrow> then_state (parse_add_char r x) IN_FIELD | EOL \<Rightarrow> Inr r))"

fun parse_process_char :: "char \<Rightarrow> reader \<Rightarrow> input \<Rightarrow> py_error + reader" where
  "parse_process_char delimiter r c =
     (case state r of
        START_RECORD \<Rightarrow>
          if c = EOL then Inr r
          else if is_newline c then Inr (r\<lparr>state := EAT_CRNL\<rparr>)
          else start_field delimiter (r\<lparr>state := START_FIELD\<rparr>) c
      | START_FIELD \<Rightarrow> start_field delimiter r c
      | IN_FIELD \<Rightarrow>
          if is_newline c \<or> c = EOL then
            Inr ((parse_save_field r)\<lparr>state := (if c = EOL then START_RECORD else EAT_CRNL)\<rparr>)
          else if c = Ch delimiter then Inr ((parse_save_field r)\<lparr>state := START_FIELD\<rparr>)
          else (case c of Ch x \<Rightarrow> parse_add_char r x | EOL \<Rightarrow> Inr r)
      | IN_QUOTED_FIELD \<Rightarrow>
          if c = EOL then Inr r
          else if c = Ch DQUOTE then Inr (r\<lparr>state := QUOTE_IN_QUOTED_FIELD\<rparr>)
          else (case c of Ch x \<Rightarrow> parse_add_char r x | EOL \<Rightarrow> Inr r)
      | QUOTE_IN_QUOTED_FIELD \<Rightarrow>
          if c = Ch DQUOTE then then_state (parse_add_char r DQUOTE) IN_QUOTED_FIELD
          else if c = Ch delimiter then Inr ((parse_save_field r)\<lparr>state := START_FIELD\<rparr>)
          else if is_newline c \<or> c = EOL then
            Inr ((parse_save_field r)\<lparr>state := (if c = EOL then START_RECORD else EAT_CRNL)\<rparr>)
          else (case c of Ch x \<Rightarrow> then_state (parse_add_char r x) IN_FIELD | EOL \<Rightarrow> Inr r)
      | EAT_CRNL \<Rightarrow>
          if is_newline c then Inr r
          else if c = EOL then Inr (r\<lparr>state := START_RECORD\<rparr>)
          else Inl CsvError)"

text \<open>
  A line of the file ends after \<open>\n\<close>, after \<open>\r\n\<close>, after an \<open>\r\<close> that no \<open>\n\<close> follows,
  and at the end of the file.
\<close>

definition line_ends :: "char \<Rightarrow> string \<Rightarrow> bool" where
  "line_ends c rest = (c = LF \<or> rest = [] \<or> (c = CR \<and> hd rest \<noteq> LF))"

text \<open>
  The records of a text (\<open>Reader_iternext\<close> called until the file is exhausted). A record
  is complete when the end of a line leaves the machine in \<open>START_RECORD\<close>; then the next
  record starts from the reset state. At the end of the file a pending field, or an open
  quoted field, still makes a record.
\<close>

fun feed :: "char \<Rightarrow> reader \<Rightarrow> string \<Rightarrow> py_error + string list list" where
  "feed delimiter r [] =
     (if cur_field r \<noteq> [] \<or> state r = IN_QUOTED_FIELD then Inr [row_fields (parse_save_field r)]
      else Inr [])"
| "feed delimiter r (c # rest) =
     (case parse_process_char delimiter r (Ch c) of
        Inl e \<Rightarrow> Inl e
      | Inr r1 \<Rightarrow>
          if line_ends c rest then
            (case parse_process_char delimiter r1 EOL of
               Inl e \<Rightarrow> Inl e
             | Inr r2 \<Rightarrow>
                 if state r2 = START_RECORD then
                   (case feed delimiter parse_reset rest of
                      Inl e \<Rightarrow> Inl e
                    | Inr rows \<Rightarrow> Inr (row_fields r2 # rows))
                 else feed delimiter r2 rest)
          else feed delimiter r1 rest)"

definition csv_reader :: "char \<Rightarrow> string \<Rightarrow> py_error + string list list" where
  "csv_reader delimiter text = feed delimiter parse_reset text"

subsection \<open>DictReader and DictWriter\<close>

text \<open>
  A row as \<open>DictReader\<close> yields it: \<open>dict(zip(fieldnames, row))\<close>, with \<open>None\<close> (the
  \<open>restval\<close>) for the names a short row has no value for, and the surplus values of a long
  row under the key \<open>None\<close> (the \<open>restkey\<close>), here the component \<open>restkey\<close>. The first record
  of the file gives the field names and empty records are skipped.
\<close>

record dict_row =
  cells :: "(string \<times> string option) list"
  restkey :: "string list option"

definition make_row :: "string list \<Rightarrow> string list \<Rightarrow> dict_row" where
  "make_row names row =
     \<lparr>cells = zip names (map Some row @ replicate (length names - length row) None),
      restkey = (if length names < length row then Some (drop (length names) row) else None)\<rparr>"

definition DictReader :: "char \<Rightarrow> string \<Rightarrow> py_error + dict_row list" where
  "DictReader delimiter text =
     (case csv_reader delimiter text of
        Inl e \<Rightarrow> Inl e
      | Inr [] \<Rightarrow> Inr []
      | Inr (names # rows) \<Rightarrow> Inr (map (make_row names) (filter (\<lambda>row. row \<noteq> []) rows)))"

text \<open>\<open>d.get(key)\<close>: of two cells with one name the later one is the entry of the dict.\<close>

definition dict_get :: "dict_row \<Rightarrow> string \<Rightarrow> string option option" where
  "dict_get d key = map_of (rev (cells d)) key"

text \<open>\<open>d[key]\<close>\<close>

definition dict_getitem :: "dict_row \<Rightarrow> string \<Rightarrow> py_error + string option" where
  "dict_getitem d key = (case dict_get d key of None \<Rightarrow> Inl KeyError | Some v \<Rightarrow> Inr v)"

definition fieldnames :: "string list" where
  "fieldnames =
     [''ModArchiveID'', ''Name'', ''MD5'', ''Format'', ''Channels'', ''Genre'', ''Artist'',
      ''RelativePath'']"

text \<open>
  \<open>DictWriter\<close> over \<open>fieldnames\<close>: a dict with a key that is no field name raises
  \<open>ValueError\<close>; a missing value and \<open>None\<close> are written as the empty string. \<open>writerows\<close>
  returns the text written and the error that stopped it, if any.
\<close>

definition wrong_fields :: "dict_row \<Rightarrow> bool" where
  "wrong_fields d = (restkey d \<noteq> None \<or> (\<exists>k \<in> set (map fst (cells d)). k \<notin> set fieldnames))"

definition dict_to_list :: "dict_row \<Rightarrow> string list" where
  "dict_to_list d =
     map (\<lambda>key. case dict_get d key of Some (Some v) \<Rightarrow> v | _ \<Rightarrow> []) fieldnames"

fun writerows :: "char \<Rightarrow> dict_row list \<Rightarrow> string \<times> py_error option" where
  "writerows delimiter [] = ([], None)"
| "writerows delimiter (d # ds) =
     (if wrong_fields d then ([], Some ValueError)
      else (case writerows delimiter ds of
              (text, err) \<Rightarrow> (writerow delimiter (dict_to_list d) @ text, err)))"

section \<open>Catalog index\<close>

text \<open>
  The file system, as far as the program uses it. A path names a file, and two paths
  may name the same one (\<open>modules_catalog.csv\<close> and \<open>./modules_catalog.csv\<close>, an absolute
  path, a link): \<open>locate\<close> gives the file that a path names, whether or not it exists yet,
  and \<open>files\<close> gives the text of the files that exist. Creating and writing files does
  not change what the paths name. Directories, permissions and encodings are not
  modelled: every path can be opened for writing, and every text can be written and read
  back.
\<close>

record 'f filesystem =
  locate :: "string \<Rightarrow> 'f"
  files :: "'f \<rightharpoonup> string"

text \<open>
  The text at a path, \<open>None\<close> when \<open>os.path.exists\<close> is false, and the file system after
  \<open>open(path, "w")\<close> and the writing of a text.
\<close>

definition read_file :: "'f filesystem \<Rightarrow> string \<Rightarrow> string option" where
  "read_file fs path = files fs (locate fs path)"

definition write_file :: "string \<Rightarrow> string \<Rightarrow> 'f filesystem \<Rightarrow> 'f filesystem" where
  "write_file path content fs = fs\<lparr>files := (files fs)(locate fs path \<mapsto> content)\<rparr>"

definition CSV_FILENAME :: string where
  "CSV_FILENAME = ''modules_catalog.csv''"

text \<open>\<open>ensure_csv_exists\<close> writes the header with \<open>csv.writer(f)\<close>, whose delimiter is the comma.\<close>

definition ensure_csv_exists :: "string \<Rightarrow> 'f filesystem \<Rightarrow> 'f filesystem" where
  "ensure_csv_exists csv_path fs =
     (if read_file fs csv_path = None then write_file csv_path (writerow (CHR '','') fieldnames) fs
      else fs)"

record module_record =
  ModArchiveID :: string
  Name :: string
  MD5 :: string
  Format :: string
  Channels :: string
  Genre :: string
  Artist :: string
  RelativePath :: string

definition record_values :: "module_record \<Rightarrow> string list" where
  "record_values r =
     [ModArchiveID r, Name r, MD5 r, Format r, Channels r, Genre r, Artist r, RelativePath r]"

definition as_dict :: "module_record \<Rightarrow> dict_row" where
  "as_dict r = \<lparr>cells = zip fieldnames (map Some (record_values r)), restkey = None\<rparr>"

text \<open>The loop over the rows read: \<open>row["ModArchiveID"]\<close> raises \<open>KeyError\<close> when the file
  has no such column.\<close>

fun other_rows :: "string \<Rightarrow> dict_row list \<Rightarrow> py_error + dict_row list" where
  "other_rows key [] = Inr []"
| "other_rows key (row # remaining) =
     (case dict_getitem row ''ModArchiveID'' of
        Inl e \<Rightarrow> Inl e
      | Inr v \<Rightarrow>
          (case other_rows key remaining of
             Inl e \<Rightarrow> Inl e
           | Inr rows \<Rightarrow> Inr (if v \<noteq> Some key then row # rows else rows)))"

text \<open>
  \<open>update_metadata_csv\<close> returns the exception raised, if any, and the file system it
  leaves. The file is opened for writing only after the rows are read, so an error while
  reading leaves it as it was; an error while writing leaves the rows written before it.
\<close>

definition update_metadata_csv ::
    "string \<Rightarrow> module_record \<Rightarrow> 'f filesystem \<Rightarrow> py_error option \<times> 'f filesystem" where
  "update_metadata_csv csv_path new_row fs =
     (let fs1 = ensure_csv_exists CSV_FILENAME fs in
      case (case read_file fs1 csv_path of
              None \<Rightarrow> Inr []
            | Some text \<Rightarrow>
                (case DictReader (CHR '';'') text of
                   Inl e \<Rightarrow> Inl e
                 | Inr rows \<Rightarrow> other_rows (ModArchiveID new_row) rows)) of
        Inl e \<Rightarrow> (Some e, fs1)
      | Inr rows \<Rightarrow>
          (case writerows (CHR '';'') (rows @ [as_dict new_row]) of
             (text, err) \<Rightarrow>
               (err, write_file csv_path (writerow (CHR '';'') fieldnames @ text) fs1)))"

text \<open>A sequence of calls on one path; an exception ends the run.\<close>

fun upsert_all ::
    "string \<Rightarrow> module_record list \<Rightarrow> 'f filesystem \<Rightarrow> py_error option \<times> 'f filesystem" where
  "upsert_all csv_path [] fs = (None, fs)"
| "upsert_all csv_path (r # rs) fs =
     (case update_metadata_csv csv_path r fs of
        (None, fs') \<Rightarrow> upsert_all csv_path rs fs'
      | (Some e, fs') \<Rightarrow> (Some e, fs'))"

text \<open>What a reader of the catalog finds in the file: the header and the data rows.\<close>

definition read_catalog ::
    "string \<Rightarrow> 'f filesystem \<Rightarrow> (string list \<times> string list list) option" where
  "read_catalog csv_path fs =
     (case read_file fs csv_path of
        None \<Rightarrow> None
      | Some text \<Rightarrow>
          (case csv_reader (CHR '';'') text of
             Inr (header # rows) \<Rightarrow> Some (header, rows)
           | _ \<Rightarrow> None))"

section \<open>Notions of the specification and example documents\<close>

text \<open>
  The headings that the second loop of \<open>scrape_metadata\<close> acts on, and the lists found
  next to them, in document order.
\<close>

definition is_artist_heading :: "element \<Rightarrow> bool" where
  "is_artist_heading header =
     (case first_string (contents (el header)) of
        None \<Rightarrow> False
      | Some t \<Rightarrow> str_strip t = ''Registered Artist(s):'')"

fun artist_lists_of :: "element list \<Rightarrow> node list" where
  "artist_lists_of [] = []"
| "artist_lists_of (h # hs) =
     (if is_artist_heading h then
        (case find_next_sibling ''ul'' h of
           Some u \<Rightarrow> u # artist_lists_of hs
         | None \<Rightarrow> artist_lists_of hs)
      else artist_lists_of hs)"

definition artist_lists :: "soup \<Rightarrow> node list" where
  "artist_lists doc = artist_lists_of (find_all [''h2''] doc)"



definition comment_before_label :: soup where
  "comment_before_label =
     [Tag ''h2'' [Str Comment ''c'', Text ''Registered Artist(s):''],
      Tag ''ul'' [Tag ''li'' [Text ''A'']]]"

definition info_list :: node where
  "info_list =
     Tag ''ul''
       [Tag ''li'' [Text ''Mod Archive ID: 1234''], Tag ''li'' [Text ''MD5: abcd1234''],
        Tag ''li'' [Text ''Format: IT''], Tag ''li'' [Text ''Channels: 8''],
        Tag ''li'' [Text ''Genre: Chiptune'']]"

section \<open>Notions for the catalog file\<close>

text \<open>
  A delimiter that the writer and the reader treat as nothing else: not the quote
  character and not part of a line ending.
\<close>

definition plain_delimiter :: "char \<Rightarrow> bool" where
  "plain_delimiter d = (d \<noteq> DQUOTE \<and> d \<noteq> CR \<and> d \<noteq> LF)"

text \<open>The reader is about to read a field: nothing of it is read yet.\<close>

definition at_field_start :: "reader \<Rightarrow> bool" where
  "at_field_start r = (cur_field r = [] \<and> (state r = START_FIELD \<or> state r = START_RECORD))"

text \<open>
  The text of a catalog as \<open>update_metadata_csv\<close> writes it, the value of a column in a data
  row, and the list of records after one more call.
\<close>

definition catalog_text :: "string list list \<Rightarrow> string" where
  "catalog_text rows = writerow (CHR '';'') fieldnames @ concat (map (writerow (CHR '';'')) rows)"


definition upsert_row :: "module_record \<Rightarrow> module_record list \<Rightarrow> module_record list" where
  "upsert_row r rows = filter (\<lambda>x. ModArchiveID x \<noteq> ModArchiveID r) rows @ [r]"

text \<open>
  A field that the reader accepts, a reader whose pending field and collected fields are
  such fields, and a record whose eight values are.
\<close>

definition within_limit :: "string \<Rightarrow> bool" where
  "within_limit f = (length f \<le> field_size_limit)"


definition record_within_limit :: "module_record \<Rightarrow> bool" where
  "record_within_limit r = list_all within_limit (record_values r)"

text \<open>
  Example file systems: one with no file, where every path names a file of its own, and
  one with no file where \<open>./modules_catalog.csv\<close> names the file of \<open>modules_catalog.csv\<close>.
\<close>

definition empty_directory :: "string filesystem" where
  "empty_directory = \<lparr>locate = (\<lambda>path. path), files = Map.empty\<rparr>"


text \<open>
  Example records: two with the key \<open>5\<close> (one with the delimiter in a value), one other,
  and one with the key \<open>5\<close> whose name has one character more than the reader accepts.
\<close>

definition example_v1 :: module_record where
  "example_v1 =
     \<lparr>ModArchiveID = ''5'', Name = ''First; take'', MD5 = ''0a'', Format = ''IT'',
      Channels = ''8'', Genre = ''Chiptune'', Artist = ''A'',
      RelativePath = ''./Chiptune/First take-A.it''\<rparr>"

definition example_v2 :: module_record where
  "example_v2 =
     \<lparr>ModArchiveID = ''5'', Name = ''Second take'', MD5 = ''0b'', Format = ''XM'',
      Channels = ''4'', Genre = ''Demo'', Artist = ''B'',
      RelativePath = ''./Demo/Second take-B.xm''\<rparr>"

definition example_other :: module_record where
  "example_other =
     \<lparr>ModArchiveID = ''6'', Name = ''Other'', MD5 = ''0c'', Format = ''MOD'',
      Channels = ''4'', Genre = ''Unknown'', Artist = ''Unknown'',
      RelativePath = ''./Unknown/Other-Unknown.mod''\<rparr>"


section \<open>Properties of the filename sanitizer\<close>

lemma last_dropWhile_nonempty: "dropWhile P xs \<noteq> [] \<Longrightarrow> last (dropWhile P xs) = last xs"
  by (induction xs) (auto split: if_splits)

lemma dropWhile_self: "xs = [] \<or> \<not> P (hd xs) \<Longrightarrow> dropWhile P xs = xs"
  by (cases xs) auto

lemma set_str_strip: "set (str_strip s) \<subseteq> set s"
proof -
  have "set (dropWhile str_isspace (rev (dropWhile str_isspace s)))
          \<subseteq> set (rev (dropWhile str_isspace s))"
    by (meson set_dropWhileD subsetI)
  also have "\<dots> \<subseteq> set s"
    using set_dropWhileD by fastforce
  finally show ?thesis by (simp add: str_strip_def)
qed

lemma str_strip_ends:
  assumes "str_strip s \<noteq> []"
  shows "\<not> str_isspace (hd (str_strip s))" and "\<not> str_isspace (last (str_strip s))"
proof -
  let ?t = "dropWhile str_isspace s"
  let ?u = "dropWhile str_isspace (rev ?t)"
  from assms have u: "?u \<noteq> []" by (simp add: str_strip_def)
  have t: "?t \<noteq> []"
  proof
    assume "?t = []"
    then have "?u = []" by (simp only: rev.simps dropWhile.simps)
    with u show False by (rule notE)
  qed
  have "hd (str_strip s) = last ?u" using u by (simp add: str_strip_def hd_rev)
  also have "\<dots> = last (rev ?t)" using u by (rule last_dropWhile_nonempty)
  also have "\<dots> = hd ?t" using t by (simp add: last_rev)
  finally show "\<not> str_isspace (hd (str_strip s))" using t hd_dropWhile by metis
  have "last (str_strip s) = hd ?u" using u by (simp add: str_strip_def last_rev)
  then show "\<not> str_isspace (last (str_strip s))" using u hd_dropWhile by metis
qed

lemma str_strip_idem: "str_strip (str_strip s) = str_strip s"
proof (cases "str_strip s = []")
  case True
  have "str_strip [] = []" by (simp add: str_strip_def)
  with True show ?thesis by (simp only:)
next
  case False
  let ?u = "str_strip s"
  have 1: "dropWhile str_isspace ?u = ?u"
    using False str_strip_ends(1) by (intro dropWhile_self) simp
  have "hd (rev ?u) = last ?u" using False by (simp add: hd_rev)
  then have 2: "dropWhile str_isspace (rev ?u) = rev ?u"
    using False str_strip_ends(2) by (intro dropWhile_self) simp
  show ?thesis
    unfolding str_strip_def[of "str_strip s"] 1 2 by simp
qed

lemma sanitize_filename_keeps: "\<forall>c \<in> set (sanitize_filename s). keep_char c"
proof -
  have "set (sanitize_filename s) \<subseteq> set (filter keep_char s)"
    unfolding sanitize_filename_def by (rule set_str_strip)
  then show ?thesis by auto
qed

text \<open>
  Claim C2, as stated: the result of \<open>sanitize_filename\<close> holds only characters of
  \<open>[A-Za-z0-9 _-]\<close>. It fails: \<open>str.isalnum\<close> is true of letters and digits outside ASCII,
  so the one-character string \<open>\xe9\<close> (e with acute accent) is returned unchanged.
\<close>

theorem sanitize_filename_counterexample:
  "sanitize_filename [CHR 0xE9] = [CHR 0xE9] \<and> \<not> ascii_name_char (CHR 0xE9)"
  by (simp add: sanitize_filename_def keep_char_def str_isalnum_def str_strip_def
      str_isspace_def ascii_name_char_def)

text \<open>
  Claim C2, amended: for every string the result holds only characters that \<open>isalnum\<close>
  accepts (which include letters and digits outside ASCII), spaces, underscores and
  hyphens, and it neither starts nor ends with whitespace.
\<close>

theorem sanitize_filename_chars:
  "(\<forall>c \<in> set (sanitize_filename s). str_isalnum c \<or> c \<in> set '' _-'') \<and>
   (sanitize_filename s \<noteq> [] \<longrightarrow>
      \<not> str_isspace (hd (sanitize_filename s)) \<and> \<not> str_isspace (last (sanitize_filename s)))"
  using sanitize_filename_keeps[of s] str_strip_ends[of "filter keep_char s"]
  by (simp add: keep_char_def sanitize_filename_def)

theorem sanitize_filename_chars_witness:
  "sanitize_filename '' My Song! '' = ''My Song'' \<and>
   (str_isalnum (hd (sanitize_filename '' My Song! '')) \<or>
    hd (sanitize_filename '' My Song! '') \<in> set '' _-'') \<and>
   \<not> str_isspace (hd (sanitize_filename '' My Song! '')) \<and>
   \<not> str_isspace (last (sanitize_filename '' My Song! ''))"
proof -
  have e: "sanitize_filename '' My Song! '' = ''My Song''"
    by (simp add: sanitize_filename_def keep_char_def str_isalnum_def str_strip_def
        str_isspace_def)
  then have "sanitize_filename '' My Song! '' \<noteq> []"
    and "hd (sanitize_filename '' My Song! '') \<in> set (sanitize_filename '' My Song! '')"
    by simp_all
  with sanitize_filename_chars[of "'' My Song! ''"] e show ?thesis by blast
qed

text \<open>
  Claim C10: \<open>sanitize_filename\<close> is idempotent.
\<close>

theorem sanitize_filename_idempotent:
  "sanitize_filename (sanitize_filename s) = sanitize_filename s"
proof -
  have "filter keep_char (sanitize_filename s) = sanitize_filename s"
    using sanitize_filename_keeps[of s] by (simp add: filter_id_conv)
  then have "sanitize_filename (sanitize_filename s) = str_strip (sanitize_filename s)"
    by (simp add: sanitize_filename_def[of "sanitize_filename s"])
  also have "\<dots> = sanitize_filename s"
    by (simp add: sanitize_filename_def str_strip_idem)
  finally show ?thesis .
qed

section \<open>Properties of the title resolution\<close>

lemma resolve_title_without_heading:
  "title_header_of doc = None \<Longrightarrow> resolve_title doc None = Inl NameError"
  by (simp add: resolve_title_def)

text \<open>
  Claim C3: with no name override and a document that has neither an \<open>h1\<close> nor an \<open>h2\<close>
  the title is \<open>module_<module_id>\<close> and the run does not fail there. The code does not
  do that: the fallback reads the unbound name \<open>mod_id\<close>, and the run ends with
  \<open>NameError\<close>. Here the document is a single paragraph.
\<close>

theorem resolve_title_fallback_raises:
  "resolve_title [Tag ''p'' [Text ''x'']] None = Inl NameError"
  by code_simp

section \<open>Properties of the scraper\<close>




lemma after_first_colon_returns:
  "CHR '':'' \<in> set s \<Longrightarrow> \<exists>v. after_first_colon s = Inr v"
  by (induction s) auto

lemma str_contains_subset: "str_contains sub s \<Longrightarrow> set sub \<subseteq> set s"
proof (induction s)
  case Nil
  then show ?case by simp
next
  case (Cons c s)
  show ?case
  proof (cases "take (length sub) (c # s) = sub")
    case True
    then have "set sub = set (take (length sub) (c # s))" by simp
    then show ?thesis using set_take_subset[of "length sub" "c # s"] by simp
  next
    case False
    with Cons show ?thesis by auto
  qed
qed

lemma label_has_colon:
  "str_contains sub line \<Longrightarrow> CHR '':'' \<in> set sub \<Longrightarrow> \<exists>v. after_first_colon line = Inr v"
  using str_contains_subset after_first_colon_returns by blast

text \<open>The scan of the lines never raises: a line with a label has a colon.\<close>

lemma scan_line_returns: "\<exists>d'. scan_line line d = Inr d'"
proof -
  have "\<And>sub. str_contains sub line \<Longrightarrow> CHR '':'' \<in> set sub \<Longrightarrow>
      \<exists>v. after_first_colon line = Inr v"
    by (rule label_has_colon)
  then have
    "str_contains ''Mod Archive ID:'' line \<Longrightarrow> \<exists>v. after_first_colon line = Inr v"
    "str_contains ''MD5:'' line \<Longrightarrow> \<exists>v. after_first_colon line = Inr v"
    "str_contains ''Format:'' line \<Longrightarrow> \<exists>v. after_first_colon line = Inr v"
    "str_contains ''Channels:'' line \<Longrightarrow> \<exists>v. after_first_colon line = Inr v"
    "str_contains ''Genre:'' line \<Longrightarrow> \<exists>v. after_first_colon line = Inr v"
    by simp_all
  then show ?thesis
    unfolding scan_line_def by (auto split: sum.splits)
qed

lemma scan_lines_returns: "\<exists>d'. scan_lines ls d = Inr d'"
proof (induction ls arbitrary: d)
  case Nil
  show ?case by simp
next
  case (Cons line ls)
  obtain d1 where "scan_line line d = Inr d1" using scan_line_returns by blast
  then show ?case using Cons.IH[of d1] by simp
qed

text \<open>
  Without an \<open>Info\<close> heading, and when every \<open>h2\<close> has a direct text that is not the label
  of the artists, the result is six times \<open>Unknown\<close>.
\<close>

lemma info_section_of_None:
  "\<forall>h \<in> set hs. str_strip (text_of (el h)) \<noteq> ''Info'' \<Longrightarrow> info_section_of hs = None"
  by (induction hs) auto

lemma artist_loop_no_match:
  "\<forall>h \<in> set hs. \<exists>t. first_string (contents (el h)) = Some t \<and>
      str_strip t \<noteq> ''Registered Artist(s):'' \<Longrightarrow>
   artist_loop hs d = Inr d"
  by (induction hs) auto

lemma scrape_metadata_degrades:
  assumes "\<forall>h \<in> set (find_all [''h6'', ''h3'', ''h2'', ''h4''] doc).
             str_strip (text_of (el h)) \<noteq> ''Info''"
    and "\<forall>h \<in> set (find_all [''h2''] doc). \<exists>t. first_string (contents (el h)) = Some t \<and>
             str_strip t \<noteq> ''Registered Artist(s):''"
  shows "scrape_metadata doc = Inr unknown_metadata"
  using info_section_of_None[OF assms(1)] artist_loop_no_match[OF assms(2)]
  by (simp add: scrape_metadata_def)

text \<open>The only exception that \<open>scrape_metadata\<close> raises is the one of the second loop.\<close>

lemma artist_loop_error: "artist_loop hs d = Inl e \<Longrightarrow> e = AttributeError"
  by (induction hs arbitrary: d) (auto split: option.splits if_splits)

lemma scrape_metadata_error: "scrape_metadata doc = Inl e \<Longrightarrow> e = AttributeError"
proof -
  assume a: "scrape_metadata doc = Inl e"
  let ?info = "info_section_of (find_all [''h6'', ''h3'', ''h2'', ''h4''] doc)"
  obtain d1 where "(case ?info of None \<Rightarrow> Inr unknown_metadata
      | Some sec \<Rightarrow> scan_lines (splitlines (get_text [LF] sec)) unknown_metadata) = Inr d1"
    using scan_lines_returns by (cases ?info) auto
  with a have "artist_loop (find_all [''h2''] doc) d1 = Inl e"
    by (simp add: scrape_metadata_def)
  then show ?thesis by (rule artist_loop_error)
qed

text \<open>
  In a document without \<open>h1\<close> and \<open>h2\<close> the scraper returns, so that \<open>main\<close> reaches the
  title resolution.
\<close>

lemma no_title_header_no_h2: "title_header_of doc = None \<Longrightarrow> find_all [''h2''] doc = []"
  by (auto simp: title_header_of_def find_first_def find_all_def find_None_iff
      filter_empty_conv split: option.splits)

lemma scrape_metadata_without_title_header:
  assumes "title_header_of doc = None"
  shows "\<exists>d. scrape_metadata doc = Inr d"
proof -
  let ?info = "info_section_of (find_all [''h6'', ''h3'', ''h2'', ''h4''] doc)"
  obtain d1 where "(case ?info of None \<Rightarrow> Inr unknown_metadata
      | Some sec \<Rightarrow> scan_lines (splitlines (get_text [LF] sec)) unknown_metadata) = Inr d1"
    using scan_lines_returns by (cases ?info) auto
  then show ?thesis
    by (simp add: scrape_metadata_def no_title_header_no_h2[OF assms])
qed

text \<open>
  Claim C4: a document with no \<open>Info\<close> heading and no \<open>h2\<close> whose direct text strips to
  \<open>Registered Artist(s):\<close> gives six times \<open>Unknown\<close>, without an error. The code does not
  do that for every such document: an \<open>h2\<close> that has no string among its children (here
  its text is inside a link) makes \<open>find(text=True, recursive=False)\<close> return \<open>None\<close>, and
  \<open>None.strip()\<close> raises \<open>AttributeError\<close>.
\<close>

theorem scrape_metadata_heading_without_text:
  "scrape_metadata [Tag ''h2'' [Tag ''a'' [Text ''Title'']]] = Inl AttributeError"
  by code_simp

text \<open>
  Claim C8: the five lines of the example give the five values, and \<open>Unknown\<close> for the
  artist, in every document with that info section and no artist heading. The same
  defect breaks it: with an \<open>h2\<close> that has no string among its children after the info
  section, the values are scanned and then the second loop raises \<open>AttributeError\<close>.
\<close>

theorem scrape_metadata_info_then_heading_without_text:
  "scrape_metadata
     [Tag ''h3'' [Text ''Info''], info_list, Tag ''h2'' [Tag ''a'' [Text ''Title'']]]
   = Inl AttributeError"
  by code_simp

text \<open>
  Without such a heading the example of the specification is what the code returns: in
  every document whose info section has the five lines and whose \<open>h2\<close> headings all have
  a direct text that is not the label of the artists.
\<close>

lemma scan_lines_example:
  "scan_lines
     [''Mod Archive ID: 1234'', ''MD5: abcd1234'', ''Format: IT'', ''Channels: 8'',
      ''Genre: Chiptune''] unknown_metadata =
   Inr \<lparr>mod_id = ''1234'', md5 = ''abcd1234'', format = ''IT'', channels = ''8'',
        genre = ''Chiptune'', artist = ''Unknown''\<rparr>"
  by code_simp

lemma scrape_metadata_extraction:
  assumes "info_section_of (find_all [''h6'', ''h3'', ''h2'', ''h4''] doc) = Some sec"
    and "splitlines (get_text [LF] sec) =
           [''Mod Archive ID: 1234'', ''MD5: abcd1234'', ''Format: IT'', ''Channels: 8'',
            ''Genre: Chiptune'']"
    and "\<forall>h \<in> set (find_all [''h2''] doc). \<exists>t. first_string (contents (el h)) = Some t \<and>
             str_strip t \<noteq> ''Registered Artist(s):''"
  shows "scrape_metadata doc =
         Inr \<lparr>mod_id = ''1234'', md5 = ''abcd1234'', format = ''IT'', channels = ''8'',
              genre = ''Chiptune'', artist = ''Unknown''\<rparr>"
proof -
  have "scrape_metadata doc =
        (case scan_lines (splitlines (get_text [LF] sec)) unknown_metadata of
           Inl e \<Rightarrow> Inl e
         | Inr data' \<Rightarrow> artist_loop (find_all [''h2''] doc) data')"
    by (simp add: scrape_metadata_def assms(1))
  then show ?thesis
    unfolding assms(2) scan_lines_example
    using artist_loop_no_match[OF assms(3)] by simp
qed


lemma scrape_metadata_extraction_example:
  "scrape_metadata [Tag ''h3'' [Text ''Info''], info_list] =
   Inr \<lparr>mod_id = ''1234'', md5 = ''abcd1234'', format = ''IT'', channels = ''8'',
        genre = ''Chiptune'', artist = ''Unknown''\<rparr>"
  by code_simp

text \<open>
  The direct text is the first string child of the heading, whatever its class: when a
  comment comes before the label, the heading is not one of the artists.
\<close>

lemma scrape_metadata_comment_before_label:
  "scrape_metadata comment_before_label = Inr unknown_metadata \<and>
   artist_lists comment_before_label = []"
  by code_simp




section \<open>The reader reads back what the writer wrote\<close>

declare feed.simps [simp del]
declare parse_process_char.simps [simp del]

lemma field_size_limit_pos: "0 < field_size_limit"
  by (simp add: field_size_limit_def)

lemma parse_add_char_below:
  "length (cur_field r) < field_size_limit \<Longrightarrow>
   parse_add_char r c = Inr (r\<lparr>cur_field := cur_field r @ [c]\<rparr>)"
  by (simp add: parse_add_char_def)


lemma step_in_quoted:
  assumes "state r = IN_QUOTED_FIELD"
  shows "parse_process_char d r (Ch c) =
           (if c = DQUOTE then Inr (r\<lparr>state := QUOTE_IN_QUOTED_FIELD\<rparr>) else parse_add_char r c)"
    and "parse_process_char d r EOL = Inr r"
  using assms by (simp_all add: parse_process_char.simps)

lemma step_quote_in_quoted:
  assumes "state r = QUOTE_IN_QUOTED_FIELD"
  shows "parse_process_char d r (Ch DQUOTE) = then_state (parse_add_char r DQUOTE) IN_QUOTED_FIELD"
  using assms by (simp add: parse_process_char.simps)

lemma step_in_field:
  assumes "state r = IN_FIELD" "c \<noteq> d" "c \<noteq> CR" "c \<noteq> LF"
  shows "parse_process_char d r (Ch c) = parse_add_char r c"
  using assms by (simp add: parse_process_char.simps is_newline_def)

lemma step_open_quote:
  assumes "at_field_start r"
  shows "parse_process_char d r (Ch DQUOTE) = Inr (r\<lparr>state := IN_QUOTED_FIELD\<rparr>)"
proof -
  from assms consider "state r = START_FIELD" | "state r = START_RECORD"
    by (auto simp: at_field_start_def)
  then show ?thesis
    by cases (simp_all add: parse_process_char.simps start_field_def is_newline_def)
qed

lemma step_first_char:
  assumes "at_field_start r" "c \<noteq> d" "c \<noteq> DQUOTE" "c \<noteq> CR" "c \<noteq> LF"
  shows "parse_process_char d r (Ch c) = Inr (r\<lparr>state := IN_FIELD, cur_field := [c]\<rparr>)"
proof -
  from assms(1) consider "state r = START_FIELD" "cur_field r = []"
    | "state r = START_RECORD" "cur_field r = []"
    by (auto simp: at_field_start_def)
  then show ?thesis
    using assms(2-)
    by cases
      (simp_all add: parse_process_char.simps start_field_def is_newline_def parse_add_char_def
        then_state_def field_size_limit_pos)
qed

lemma step_delimiter:
  assumes "plain_delimiter d"
    and "state r = QUOTE_IN_QUOTED_FIELD \<or> state r = IN_FIELD \<or> at_field_start r"
  shows "parse_process_char d r (Ch d) =
           Inr (r\<lparr>state := START_FIELD, row_fields := row_fields r @ [cur_field r], cur_field := []\<rparr>)"
proof -
  from assms(2) consider "state r = QUOTE_IN_QUOTED_FIELD" | "state r = IN_FIELD"
    | "state r = START_FIELD" | "state r = START_RECORD"
    by (auto simp: at_field_start_def)
  then show ?thesis
    using assms(1)
    by cases
      (auto simp: parse_process_char.simps start_field_def is_newline_def
        parse_save_field_def plain_delimiter_def)
qed

lemma step_carriage_return:
  assumes "plain_delimiter d"
    and "state r = QUOTE_IN_QUOTED_FIELD \<or> state r = IN_FIELD \<or> state r = START_FIELD"
  shows "parse_process_char d r (Ch CR) =
           Inr (r\<lparr>state := EAT_CRNL, row_fields := row_fields r @ [cur_field r], cur_field := []\<rparr>)"
proof -
  from assms(2) consider "state r = QUOTE_IN_QUOTED_FIELD" | "state r = IN_FIELD"
    | "state r = START_FIELD"
    by auto
  then show ?thesis
    using assms(1)
    by cases
      (auto simp: parse_process_char.simps start_field_def is_newline_def
        parse_save_field_def plain_delimiter_def)
qed

lemma step_eat_crnl:
  assumes "state r = EAT_CRNL"
  shows "parse_process_char d r (Ch LF) = Inr r"
    and "parse_process_char d r EOL = Inr (r\<lparr>state := START_RECORD\<rparr>)"
  using assms by (simp_all add: parse_process_char.simps is_newline_def)

lemma line_ends_simps:
  "rest \<noteq> [] \<Longrightarrow> c \<noteq> LF \<Longrightarrow> c \<noteq> CR \<Longrightarrow> \<not> line_ends c rest"
  "\<not> line_ends CR (LF # rest)"
  "line_ends LF rest"
  by (auto simp: line_ends_def)

lemma feed_in_quoted_char:
  assumes "state r = IN_QUOTED_FIELD" "c \<noteq> DQUOTE" "rest \<noteq> []"
    and "length (cur_field r) < field_size_limit"
  shows "feed d r (c # rest) = feed d (r\<lparr>cur_field := cur_field r @ [c]\<rparr>) rest"
  using assms by (simp add: feed.simps step_in_quoted parse_add_char_below)

lemma feed_in_quoted_quote:
  assumes "state r = IN_QUOTED_FIELD" "rest \<noteq> []"
    and "length (cur_field r) < field_size_limit"
  shows "feed d r (DQUOTE # DQUOTE # rest) = feed d (r\<lparr>cur_field := cur_field r @ [DQUOTE]\<rparr>) rest"
proof -
  let ?q = "r\<lparr>state := QUOTE_IN_QUOTED_FIELD\<rparr>"
  have "feed d r (DQUOTE # DQUOTE # rest) = feed d ?q (DQUOTE # rest)"
    using assms by (simp add: feed.simps[of d r] step_in_quoted line_ends_def)
  also have "parse_process_char d ?q (Ch DQUOTE) =
      Inr (r\<lparr>state := IN_QUOTED_FIELD, cur_field := cur_field r @ [DQUOTE]\<rparr>)"
    using assms by (simp add: step_quote_in_quoted parse_add_char_below then_state_def)
  then have "feed d ?q (DQUOTE # rest) =
      feed d (r\<lparr>state := IN_QUOTED_FIELD, cur_field := cur_field r @ [DQUOTE]\<rparr>) rest"
    using assms by (simp add: feed.simps[of d ?q] line_ends_def)
  finally show ?thesis using assms(1) by (cases r) simp
qed

lemma feed_close_quote:
  assumes "state r = IN_QUOTED_FIELD" "rest \<noteq> []"
  shows "feed d r (DQUOTE # rest) = feed d (r\<lparr>state := QUOTE_IN_QUOTED_FIELD\<rparr>) rest"
  using assms by (simp add: feed.simps step_in_quoted line_ends_def)

lemma feed_quoted:
  assumes "state r = IN_QUOTED_FIELD" "rest \<noteq> []"
    and "length (cur_field r) + length f \<le> field_size_limit"
  shows "feed d r (double_quotes f @ DQUOTE # rest) =
         feed d (r\<lparr>state := QUOTE_IN_QUOTED_FIELD, cur_field := cur_field r @ f\<rparr>) rest"
  using assms
proof (induction f arbitrary: r)
  case Nil
  then show ?case by (simp add: feed_close_quote)
next
  case (Cons c f)
  show ?case
  proof (cases "c = DQUOTE")
    case True
    let ?r' = "r\<lparr>cur_field := cur_field r @ [DQUOTE]\<rparr>"
    have "feed d r (double_quotes (c # f) @ DQUOTE # rest) =
          feed d ?r' (double_quotes f @ DQUOTE # rest)"
      using True Cons.prems by (simp add: feed_in_quoted_quote)
    also have "\<dots> = feed d (?r'\<lparr>state := QUOTE_IN_QUOTED_FIELD, cur_field := cur_field ?r' @ f\<rparr>) rest"
      using Cons.prems by (intro Cons.IH) simp_all
    finally show ?thesis using True by simp
  next
    case False
    let ?r' = "r\<lparr>cur_field := cur_field r @ [c]\<rparr>"
    have "feed d r (double_quotes (c # f) @ DQUOTE # rest) =
          feed d ?r' (double_quotes f @ DQUOTE # rest)"
      using False Cons.prems by (simp add: feed_in_quoted_char)
    also have "\<dots> = feed d (?r'\<lparr>state := QUOTE_IN_QUOTED_FIELD, cur_field := cur_field ?r' @ f\<rparr>) rest"
      using Cons.prems by (intro Cons.IH) simp_all
    finally show ?thesis by simp
  qed
qed

lemma feed_plain:
  assumes "state r = IN_FIELD" "rest \<noteq> []" "\<forall>c \<in> set f. c \<noteq> d \<and> c \<noteq> CR \<and> c \<noteq> LF"
    and "length (cur_field r) + length f \<le> field_size_limit"
  shows "feed d r (f @ rest) = feed d (r\<lparr>cur_field := cur_field r @ f\<rparr>) rest"
  using assms
proof (induction f arbitrary: r)
  case Nil
  then show ?case by simp
next
  case (Cons c f)
  let ?r' = "r\<lparr>cur_field := cur_field r @ [c]\<rparr>"
  have "feed d r ((c # f) @ rest) = feed d ?r' (f @ rest)"
    using Cons.prems by (simp add: feed.simps step_in_field line_ends_def parse_add_char_below)
  also have "\<dots> = feed d (?r'\<lparr>cur_field := cur_field ?r' @ f\<rparr>) rest"
    using Cons.prems by (intro Cons.IH) simp_all
  finally show ?case by simp
qed

lemma feed_open_quote:
  assumes "at_field_start r" "rest \<noteq> []"
  shows "feed d r (DQUOTE # rest) = feed d (r\<lparr>state := IN_QUOTED_FIELD\<rparr>) rest"
  using assms by (simp add: feed.simps step_open_quote line_ends_def)

lemma feed_delimiter:
  assumes "plain_delimiter d" "rest \<noteq> []"
    and "state r = QUOTE_IN_QUOTED_FIELD \<or> state r = IN_FIELD \<or> at_field_start r"
  shows "feed d r (d # rest) =
         feed d (r\<lparr>state := START_FIELD, row_fields := row_fields r @ [cur_field r], cur_field := []\<rparr>) rest"
  using assms by (simp add: feed.simps step_delimiter line_ends_def plain_delimiter_def)

lemma feed_end_of_row:
  assumes "plain_delimiter d"
    and "state r = QUOTE_IN_QUOTED_FIELD \<or> state r = IN_FIELD \<or> state r = START_FIELD"
  shows "feed d r (CR # LF # rest) =
         (case feed d parse_reset rest of
            Inl e \<Rightarrow> Inl e
          | Inr rows \<Rightarrow> Inr ((row_fields r @ [cur_field r]) # rows))"
proof -
  let ?r1 = "r\<lparr>state := EAT_CRNL, row_fields := row_fields r @ [cur_field r], cur_field := []\<rparr>"
  have "feed d r (CR # LF # rest) = feed d ?r1 (LF # rest)"
    using assms by (simp add: feed.simps[of d r] step_carriage_return line_ends_def)
  also have "\<dots> = (case feed d parse_reset rest of
            Inl e \<Rightarrow> Inl e
          | Inr rows \<Rightarrow> Inr (row_fields ?r1 # rows))"
    by (simp add: feed.simps[of d ?r1] step_eat_crnl line_ends_def split: sum.split)
  finally show ?thesis by (simp split: sum.split)
qed

lemma feed_blank_row:
  "feed d parse_reset (CR # LF # rest) =
     (case feed d parse_reset rest of Inl e \<Rightarrow> Inl e | Inr rows \<Rightarrow> Inr ([] # rows))"
proof -
  let ?r1 = "parse_reset\<lparr>state := EAT_CRNL\<rparr>"
  have "parse_process_char d parse_reset (Ch CR) = Inr ?r1"
    by (simp add: parse_process_char.simps parse_reset_def is_newline_def)
  then have "feed d parse_reset (CR # LF # rest) = feed d ?r1 (LF # rest)"
    by (simp add: feed.simps[of d parse_reset] line_ends_def)
  also have "\<dots> = (case feed d parse_reset rest of
            Inl e \<Rightarrow> Inl e
          | Inr rows \<Rightarrow> Inr (row_fields ?r1 # rows))"
    by (simp add: feed.simps[of d ?r1] step_eat_crnl line_ends_def split: sum.split)
  finally show ?thesis by (simp add: parse_reset_def split: sum.split)
qed

lemma feed_quoted_field:
  assumes "at_field_start r" "rest \<noteq> []" "within_limit f"
  shows "feed d r (DQUOTE # double_quotes f @ DQUOTE # rest) =
         feed d (r\<lparr>state := QUOTE_IN_QUOTED_FIELD, cur_field := f\<rparr>) rest"
proof -
  have "feed d r (DQUOTE # double_quotes f @ DQUOTE # rest) =
        feed d (r\<lparr>state := IN_QUOTED_FIELD\<rparr>) (double_quotes f @ DQUOTE # rest)"
    using assms by (intro feed_open_quote) simp_all
  also have "\<dots> = feed d (r\<lparr>state := IN_QUOTED_FIELD\<rparr>\<lparr>state := QUOTE_IN_QUOTED_FIELD,
      cur_field := cur_field (r\<lparr>state := IN_QUOTED_FIELD\<rparr>) @ f\<rparr>) rest"
    using assms by (intro feed_quoted) (simp_all add: at_field_start_def within_limit_def)
  finally show ?thesis using assms by (simp add: at_field_start_def)
qed

lemma feed_plain_field:
  assumes "at_field_start r" "rest \<noteq> []" "plain_delimiter d" "\<not> needs_quotes d (c # f)"
    and "within_limit (c # f)"
  shows "feed d r ((c # f) @ rest) = feed d (r\<lparr>state := IN_FIELD, cur_field := c # f\<rparr>) rest"
proof -
  from assms(4) have c: "c \<noteq> d" "c \<noteq> DQUOTE" "c \<noteq> CR" "c \<noteq> LF"
    and f: "\<forall>x \<in> set f. x \<noteq> d \<and> x \<noteq> CR \<and> x \<noteq> LF"
    by (auto simp: needs_quotes_def)
  let ?r' = "r\<lparr>state := IN_FIELD, cur_field := [c]\<rparr>"
  have "feed d r ((c # f) @ rest) = feed d ?r' (f @ rest)"
    using assms(1,2) c by (simp add: feed.simps[of d r] step_first_char line_ends_def)
  also have "\<dots> = feed d (?r'\<lparr>cur_field := cur_field ?r' @ f\<rparr>) rest"
    using assms(2,5) f by (intro feed_plain) (simp_all add: within_limit_def)
  finally show ?thesis by simp
qed

lemma feed_field_delimiter:
  assumes "at_field_start r" "rest \<noteq> []" "plain_delimiter d" "within_limit f"
  shows "feed d r (write_field d f @ d # rest) =
         feed d (r\<lparr>state := START_FIELD, row_fields := row_fields r @ [f], cur_field := []\<rparr>) rest"
proof (cases "needs_quotes d f")
  case True
  then have "feed d r (write_field d f @ d # rest) =
      feed d (r\<lparr>state := QUOTE_IN_QUOTED_FIELD, cur_field := f\<rparr>) (d # rest)"
    using assms feed_quoted_field[where r = r and rest = "d # rest" and d = d and f = f] by (simp add: write_field_def)
  also have "\<dots> = feed d (r\<lparr>state := START_FIELD, row_fields := row_fields r @ [f], cur_field := []\<rparr>) rest"
    using assms feed_delimiter[of d rest "r\<lparr>state := QUOTE_IN_QUOTED_FIELD, cur_field := f\<rparr>"]
    by simp
  finally show ?thesis .
next
  case False
  show ?thesis
  proof (cases f)
    case Nil
    then show ?thesis using assms False feed_delimiter[of d rest r]
      by (simp add: write_field_def at_field_start_def)
  next
    case (Cons c f')
    then have "feed d r (write_field d f @ d # rest) =
        feed d (r\<lparr>state := IN_FIELD, cur_field := f\<rparr>) (d # rest)"
      using assms False feed_plain_field[of r "d # rest" d c f'] by (simp add: write_field_def)
    also have "\<dots> = feed d (r\<lparr>state := START_FIELD, row_fields := row_fields r @ [f], cur_field := []\<rparr>) rest"
      using assms feed_delimiter[of d rest "r\<lparr>state := IN_FIELD, cur_field := f\<rparr>"] by simp
    finally show ?thesis .
  qed
qed

lemma feed_field_end_of_row:
  assumes "at_field_start r" "plain_delimiter d"
    and "state r = START_RECORD \<longrightarrow> f \<noteq> []"
    and "within_limit f"
  shows "feed d r (write_field d f @ CR # LF # rest) =
         (case feed d parse_reset rest of
            Inl e \<Rightarrow> Inl e
          | Inr rows \<Rightarrow> Inr ((row_fields r @ [f]) # rows))"
proof -
  have "\<exists>q. feed d r (write_field d f @ CR # LF # rest) = feed d q (CR # LF # rest) \<and>
            row_fields q = row_fields r \<and> cur_field q = f \<and>
            (state q = QUOTE_IN_QUOTED_FIELD \<or> state q = IN_FIELD \<or> state q = START_FIELD)"
  proof (cases "needs_quotes d f")
    case True
    let ?q = "r\<lparr>state := QUOTE_IN_QUOTED_FIELD, cur_field := f\<rparr>"
    have "feed d r (write_field d f @ CR # LF # rest) = feed d ?q (CR # LF # rest)"
      using True assms feed_quoted_field[where r = r and rest = "CR # LF # rest" and d = d and f = f] by (simp add: write_field_def)
    then show ?thesis by (intro exI[of _ ?q]) simp
  next
    case False
    show ?thesis
    proof (cases f)
      case Nil
      with assms have "state r = START_FIELD" "cur_field r = []"
        by (auto simp: at_field_start_def)
      with False Nil show ?thesis by (intro exI[of _ r]) (simp add: write_field_def)
    next
      case (Cons c f')
      let ?q = "r\<lparr>state := IN_FIELD, cur_field := f\<rparr>"
      have "feed d r (write_field d f @ CR # LF # rest) = feed d ?q (CR # LF # rest)"
        using Cons assms False feed_plain_field[of r "CR # LF # rest" d c f']
        by (simp add: write_field_def)
      then show ?thesis by (intro exI[of _ ?q]) simp
    qed
  qed
  then obtain q where q: "feed d r (write_field d f @ CR # LF # rest) = feed d q (CR # LF # rest)"
    "row_fields q = row_fields r" "cur_field q = f"
    "state q = QUOTE_IN_QUOTED_FIELD \<or> state q = IN_FIELD \<or> state q = START_FIELD"
    by blast
  show ?thesis
    unfolding q(1) feed_end_of_row[OF assms(2) q(4)] q(2,3) by (rule refl)
qed

lemma feed_fields:
  assumes "plain_delimiter d" "at_field_start r" "fs \<noteq> []"
    and "state r = START_RECORD \<longrightarrow> fs \<noteq> [[]]"
    and "list_all within_limit fs"
  shows "feed d r (str_join [d] (map (write_field d) fs) @ CR # LF # rest) =
         (case feed d parse_reset rest of
            Inl e \<Rightarrow> Inl e
          | Inr rows \<Rightarrow> Inr ((row_fields r @ fs) # rows))"
  using assms(2-)
proof (induction fs arbitrary: r)
  case Nil
  then show ?case by simp
next
  case (Cons f fs)
  show ?case
  proof (cases fs)
    case Nil
    have "feed d r (write_field d f @ CR # LF # rest) =
         (case feed d parse_reset rest of
            Inl e \<Rightarrow> Inl e
          | Inr rows \<Rightarrow> Inr ((row_fields r @ [f]) # rows))"
      using Cons.prems assms(1) Nil by (intro feed_field_end_of_row) simp_all
    then show ?thesis unfolding Nil by simp
  next
    case (Cons g gs)
    let ?r' = "(r\<lparr>state := START_FIELD, row_fields := row_fields r @ [f], cur_field := []\<rparr>)"
    let ?tail = "str_join [d] (map (write_field d) fs) @ CR # LF # rest"
    have "feed d r (str_join [d] (map (write_field d) (f # fs)) @ CR # LF # rest) =
          feed d r (write_field d f @ d # ?tail)"
      using Cons by simp
    also have "\<dots> = feed d ?r' ?tail"
      using Cons.prems assms(1) by (intro feed_field_delimiter) simp_all
    also have "\<dots> = (case feed d parse_reset rest of
            Inl e \<Rightarrow> Inl e
          | Inr rows \<Rightarrow> Inr ((row_fields ?r' @ fs) # rows))"
      using Cons Cons.prems(4) by (intro Cons.IH) (simp_all add: at_field_start_def)
    finally show ?thesis by (simp split: sum.split)
  qed
qed

lemma feed_writerow:
  assumes "plain_delimiter d" "list_all within_limit row"
  shows "feed d parse_reset (writerow d row @ rest) =
         (case feed d parse_reset rest of
            Inl e \<Rightarrow> Inl e
          | Inr rows \<Rightarrow> Inr (row # rows))"
proof -
  have s: "at_field_start parse_reset"
    by (simp add: at_field_start_def parse_reset_def)
  consider "row = []" | "row = [[]]" | "row \<noteq> []" "row \<noteq> [[]]" by blast
  then show ?thesis
  proof cases
    case 1
    then have "writerow d row @ rest = CR # LF # rest" by (simp add: writerow_def)
    then show ?thesis unfolding 1 by (simp only: feed_blank_row)
  next
    case 2
    let ?q = "parse_reset\<lparr>state := QUOTE_IN_QUOTED_FIELD, cur_field := []\<rparr>"
    have a: "feed d parse_reset (DQUOTE # double_quotes [] @ DQUOTE # CR # LF # rest) =
          feed d ?q (CR # LF # rest)"
      using s by (intro feed_quoted_field) (simp_all add: within_limit_def)
    have b: "feed d ?q (CR # LF # rest) =
         (case feed d parse_reset rest of
            Inl e \<Rightarrow> Inl e
          | Inr rows \<Rightarrow> Inr ((row_fields ?q @ [cur_field ?q]) # rows))"
      using assms by (intro feed_end_of_row) simp_all
    have c: "row_fields ?q @ [cur_field ?q] = row"
      using 2 by (simp add: parse_reset_def)
    have "writerow d row @ rest = DQUOTE # double_quotes [] @ DQUOTE # CR # LF # rest"
      using 2 by (simp add: writerow_def)
    then show ?thesis unfolding a b c by (simp only: a b c)
  next
    case 3
    have "feed d parse_reset (str_join [d] (map (write_field d) row) @ CR # LF # rest) =
         (case feed d parse_reset rest of
            Inl e \<Rightarrow> Inl e
          | Inr rows \<Rightarrow> Inr ((row_fields parse_reset @ row) # rows))"
      using assms s 3 by (intro feed_fields) simp_all
    moreover have "row_fields parse_reset @ row = row"
      by (simp add: parse_reset_def)
    moreover have "writerow d row @ rest = str_join [d] (map (write_field d) row) @ CR # LF # rest"
      using 3 by (simp add: writerow_def)
    ultimately show ?thesis by (simp only:)
  qed
qed

lemma csv_reader_written:
  assumes "plain_delimiter d" "list_all (list_all within_limit) rows"
  shows "csv_reader d (concat (map (writerow d) rows)) = Inr rows"
  using assms(2) unfolding csv_reader_def
proof (induction rows)
  case Nil
  show ?case by (simp add: feed.simps parse_reset_def)
next
  case (Cons row rows)
  then show ?case using feed_writerow[OF assms(1), of row] by simp
qed

text \<open>The only exception of the reader is \<open>_csv.Error\<close>.\<close>

lemma step_error: "parse_process_char d r c = Inl e \<Longrightarrow> e = CsvError"
  by (cases "state r")
    (auto simp: parse_process_char.simps start_field_def then_state_def parse_add_char_def
      split: if_splits input.splits sum.splits)

lemma feed_error: "feed d r s = Inl e \<Longrightarrow> e = CsvError"
proof (induction s arbitrary: r)
  case Nil
  then show ?case by (simp add: feed.simps split: if_splits)
next
  case (Cons c rest)
  show ?case
  proof (cases "parse_process_char d r (Ch c)")
    case (Inl e1)
    with Cons.prems have "e = e1" by (simp add: feed.simps[of d r])
    with Inl show ?thesis by (simp add: step_error)
  next
    case r1: (Inr r1)
    show ?thesis
    proof (cases "line_ends c rest")
      case False
      with Cons.prems r1 have "feed d r1 rest = Inl e" by (simp add: feed.simps[of d r])
      then show ?thesis by (rule Cons.IH)
    next
      case True
      show ?thesis
      proof (cases "parse_process_char d r1 EOL")
        case (Inl e2)
        with Cons.prems r1 True have "e = e2" by (simp add: feed.simps[of d r])
        with Inl show ?thesis by (simp add: step_error)
      next
        case r2: (Inr r2)
        show ?thesis
        proof (cases "state r2 = START_RECORD")
          case False
          with Cons.prems r1 r2 True have "feed d r2 rest = Inl e"
            by (simp add: feed.simps[of d r])
          then show ?thesis by (rule Cons.IH)
        next
          case s: True
          with Cons.prems r1 r2 True have "feed d parse_reset rest = Inl e"
            by (simp add: feed.simps[of d r] split: sum.splits)
          then show ?thesis by (rule Cons.IH)
        qed
      qed
    qed
  qed
qed

lemma csv_reader_error: "csv_reader d content = Inl e \<Longrightarrow> e = CsvError"
  unfolding csv_reader_def by (rule feed_error)

lemma DictReader_error: "DictReader d content = Inl e \<Longrightarrow> e = CsvError"
  by (auto simp: DictReader_def split: sum.splits list.splits dest: csv_reader_error)








section \<open>Properties of the catalog index\<close>

lemma plain_semicolon: "plain_delimiter (CHR '';'')"
  by (simp add: plain_delimiter_def)

lemma fieldnames_within_limit: "list_all within_limit fieldnames"
  by (simp add: fieldnames_def within_limit_def field_size_limit_def)

lemma csv_reader_catalog_text:
  "list_all (list_all within_limit) rows \<Longrightarrow>
   csv_reader (CHR '';'') (catalog_text rows) = Inr (fieldnames # rows)"
  using csv_reader_written[OF plain_semicolon, of "fieldnames # rows"]
  by (simp add: catalog_text_def fieldnames_within_limit)

lemma length_8:
  "length (row :: 'a list) = 8 \<Longrightarrow> \<exists>a b c d e f g h. row = [a, b, c, d, e, f, g, h]"
  by (auto simp: numeral_eq_Suc length_Suc_conv)

lemma make_row_8:
  assumes "length row = 8"
  shows "dict_get (make_row fieldnames row) ''ModArchiveID'' = Some (Some (hd row))"
    and "\<not> wrong_fields (make_row fieldnames row)"
    and "dict_to_list (make_row fieldnames row) = row"
proof -
  from length_8[OF assms] obtain a b c d e f g h where r: "row = [a, b, c, d, e, f, g, h]"
    by blast
  show "dict_get (make_row fieldnames row) ''ModArchiveID'' = Some (Some (hd row))"
    unfolding r by (simp add: make_row_def dict_get_def fieldnames_def)
  show "\<not> wrong_fields (make_row fieldnames row)"
    unfolding r by (simp add: make_row_def wrong_fields_def fieldnames_def)
  show "dict_to_list (make_row fieldnames row) = row"
    unfolding r by (simp add: make_row_def dict_to_list_def dict_get_def fieldnames_def)
qed

lemma as_dict_make_row: "as_dict r = make_row fieldnames (record_values r)"
  by (simp add: as_dict_def make_row_def record_values_def fieldnames_def)

lemma as_dict_facts:
  "\<not> wrong_fields (as_dict r)" "dict_to_list (as_dict r) = record_values r"
  by (simp_all add: as_dict_make_row make_row_8 record_values_def)

lemma record_values_facts:
  "length (record_values r) = 8" "hd (record_values r) = ModArchiveID r"
  by (simp_all add: record_values_def)

lemma DictReader_catalog_text:
  assumes "\<forall>row \<in> set rows. length row = 8" "list_all (list_all within_limit) rows"
  shows "DictReader (CHR '';'') (catalog_text rows) = Inr (map (make_row fieldnames) rows)"
proof -
  from assms have "filter (\<lambda>row. row \<noteq> []) rows = rows"
    by (auto simp: filter_id_conv)
  then show ?thesis
    by (simp add: DictReader_def csv_reader_catalog_text[OF assms(2)])
qed

lemma other_rows_8:
  assumes "\<forall>row \<in> set rows. length row = 8"
  shows "other_rows key (map (make_row fieldnames) rows) =
         Inr (map (make_row fieldnames) (filter (\<lambda>row. hd row \<noteq> key) rows))"
  using assms
  by (induction rows) (simp_all add: dict_getitem_def make_row_8(1))

lemma writerows_8:
  assumes "\<forall>row \<in> set rows. length row = 8"
  shows "writerows d (map (make_row fieldnames) rows) = (concat (map (writerow d) rows), None)"
  using assms
  by (induction rows) (simp_all add: make_row_8(2,3))


text \<open>Reading and writing files.\<close>

lemma read_file_write_file:
  "read_file (write_file path content fs) path' =
     (if locate fs path' = locate fs path then Some content else read_file fs path')"
  by (simp add: read_file_def write_file_def)

lemma write_file_twice:
  "write_file path content (write_file path content' fs) = write_file path content fs"
  by (simp add: write_file_def)

lemma locate_write_file: "locate (write_file path content fs) = locate fs"
  by (simp add: write_file_def)

lemma locate_ensure_csv_exists: "locate (ensure_csv_exists path fs) = locate fs"
  by (simp add: ensure_csv_exists_def locate_write_file)

lemma read_file_ensure_csv_exists:
  "read_file (ensure_csv_exists path fs) path' =
     (if read_file fs path = None \<and> locate fs path' = locate fs path
      then Some (writerow (CHR '','') fieldnames) else read_file fs path')"
  by (auto simp: ensure_csv_exists_def read_file_write_file)

lemma ensure_csv_exists_other:
  "read_file fs csv_path \<noteq> None \<Longrightarrow>
   read_file (ensure_csv_exists CSV_FILENAME fs) csv_path = read_file fs csv_path"
  by (auto simp: read_file_ensure_csv_exists) (simp add: read_file_def)

lemma ensure_csv_exists_idem:
  "ensure_csv_exists path (write_file path' content (ensure_csv_exists path fs)) =
   write_file path' content (ensure_csv_exists path fs)"
  by (auto simp: ensure_csv_exists_def[of path "write_file path' content (ensure_csv_exists path fs)"]
      read_file_write_file read_file_ensure_csv_exists locate_ensure_csv_exists)


text \<open>One call on a file that holds a catalog, and on a missing file.\<close>

lemma update_metadata_csv_catalog:
  assumes "read_file fs csv_path = Some (catalog_text rows)" "\<forall>row \<in> set rows. length row = 8"
    and "list_all (list_all within_limit) rows"
  shows "update_metadata_csv csv_path r fs =
         (None, write_file csv_path
                  (catalog_text (filter (\<lambda>row. hd row \<noteq> ModArchiveID r) rows @ [record_values r]))
                  (ensure_csv_exists CSV_FILENAME fs))"
proof -
  let ?kept = "filter (\<lambda>row. hd row \<noteq> ModArchiveID r) rows"
  have 1: "read_file (ensure_csv_exists CSV_FILENAME fs) csv_path = Some (catalog_text rows)"
    using assms(1) ensure_csv_exists_other[of fs csv_path] by simp
  have 2: "other_rows (ModArchiveID r) (map (make_row fieldnames) rows) =
           Inr (map (make_row fieldnames) ?kept)"
    using assms(2) by (rule other_rows_8)
  have "\<forall>row \<in> set (?kept @ [record_values r]). length row = 8"
    using assms(2) by (simp add: record_values_facts)
  then have "writerows (CHR '';'') (map (make_row fieldnames) (?kept @ [record_values r])) =
        (concat (map (writerow (CHR '';'')) (?kept @ [record_values r])), None)"
    by (rule writerows_8)
  then have 3: "writerows (CHR '';'') (map (make_row fieldnames) ?kept @ [as_dict r]) =
        (concat (map (writerow (CHR '';'')) (?kept @ [record_values r])), None)"
    by (simp add: as_dict_make_row)
  show ?thesis
    unfolding update_metadata_csv_def Let_def 1
    by (simp add: DictReader_catalog_text[OF assms(2,3)] 2 3
        catalog_text_def[of "?kept @ [record_values r]"])
qed

lemma comma_header_as_one_field:
  "writerow (CHR '','') fieldnames =
   writerow (CHR '';'') [''ModArchiveID,Name,MD5,Format,Channels,Genre,Artist,RelativePath'']"
  by (simp add: writerow_def fieldnames_def write_field_def needs_quotes_def)

lemma csv_reader_comma_header:
  "csv_reader (CHR '';'') (writerow (CHR '','') fieldnames) =
     Inr [[''ModArchiveID,Name,MD5,Format,Channels,Genre,Artist,RelativePath'']]"
  using csv_reader_written[OF plain_semicolon,
      of "[[''ModArchiveID,Name,MD5,Format,Channels,Genre,Artist,RelativePath'']]"]
  by (simp add: comma_header_as_one_field within_limit_def field_size_limit_def)

lemma DictReader_comma_header: "DictReader (CHR '';'') (writerow (CHR '','') fieldnames) = Inr []"
  by (simp add: DictReader_def csv_reader_comma_header)

lemma update_metadata_csv_fresh:
  assumes "read_file fs csv_path = None"
  shows "update_metadata_csv csv_path r fs =
         (None, write_file csv_path (catalog_text [record_values r])
                  (ensure_csv_exists CSV_FILENAME fs))"
proof (cases "locate fs csv_path = locate fs CSV_FILENAME")
  case True
  with assms have "read_file fs CSV_FILENAME = None" by (simp add: read_file_def)
  with True have "read_file (ensure_csv_exists CSV_FILENAME fs) csv_path =
      Some (writerow (CHR '','') fieldnames)"
    by (simp add: read_file_ensure_csv_exists)
  then show ?thesis
    unfolding update_metadata_csv_def Let_def
    by (simp add: DictReader_comma_header as_dict_facts catalog_text_def)
next
  case False
  then have "read_file (ensure_csv_exists CSV_FILENAME fs) csv_path = None"
    using assms by (simp add: read_file_ensure_csv_exists)
  then show ?thesis
    unfolding update_metadata_csv_def Let_def
    by (simp add: as_dict_facts catalog_text_def)
qed







text \<open>A run of calls, and the list of records it leaves.\<close>

lemma filter_record_values:
  "filter (\<lambda>row. hd row \<noteq> k) (map record_values acc) =
   map record_values (filter (\<lambda>x. ModArchiveID x \<noteq> k) acc)"
  by (induction acc) (simp_all add: record_values_facts)

lemma records_within_limit:
  "list_all record_within_limit acc \<Longrightarrow> list_all (list_all within_limit) (map record_values acc)"
  by (simp add: list_all_iff record_within_limit_def)

lemma upsert_row_within_limit:
  "record_within_limit r \<Longrightarrow> list_all record_within_limit acc \<Longrightarrow>
   list_all record_within_limit (upsert_row r acc)"
  by (simp add: upsert_row_def list_all_iff)

lemma upsert_all_catalog:
  assumes "read_file fs csv_path = Some (catalog_text (map record_values acc))"
    and "list_all record_within_limit acc" "list_all record_within_limit rs"
  shows "upsert_all csv_path rs fs =
         (None, if rs = [] then fs
                else write_file csv_path (catalog_text (map record_values (fold upsert_row rs acc)))
                       (ensure_csv_exists CSV_FILENAME fs))"
  using assms
proof (induction rs arbitrary: fs acc)
  case Nil
  then show ?case by simp
next
  case (Cons r rs)
  let ?fs0 = "ensure_csv_exists CSV_FILENAME fs"
  let ?fs1 = "write_file csv_path (catalog_text (map record_values (upsert_row r acc))) ?fs0"
  have 1: "update_metadata_csv csv_path r fs = (None, ?fs1)"
    using Cons.prems(1) records_within_limit[OF Cons.prems(2)]
      update_metadata_csv_catalog[of fs csv_path "map record_values acc" r]
    by (simp add: record_values_facts filter_record_values upsert_row_def)
  have a: "read_file ?fs1 csv_path = Some (catalog_text (map record_values (upsert_row r acc)))"
    by (simp add: read_file_write_file)
  have b: "list_all record_within_limit (upsert_row r acc)"
    using Cons.prems(2,3) by (simp add: upsert_row_within_limit)
  have c: "list_all record_within_limit rs"
    using Cons.prems(3) by simp
  have "upsert_all csv_path rs ?fs1 =
         (None, if rs = [] then ?fs1
                else write_file csv_path
                       (catalog_text (map record_values (fold upsert_row rs (upsert_row r acc))))
                       (ensure_csv_exists CSV_FILENAME ?fs1))"
    using a b c by (rule Cons.IH[where fs = ?fs1 and acc = "upsert_row r acc"])
  then have "upsert_all csv_path rs ?fs1 =
         (None, if rs = [] then ?fs1
                else write_file csv_path
                       (catalog_text (map record_values (fold upsert_row rs (upsert_row r acc))))
                       ?fs0)"
    by (simp only: ensure_csv_exists_idem write_file_twice)
  then show ?case
    by (cases "rs = []") (simp_all add: 1)
qed

lemma upsert_all_fresh:
  assumes "read_file fs csv_path = None" "rs \<noteq> []" "list_all record_within_limit rs"
  shows "upsert_all csv_path rs fs =
         (None, write_file csv_path (catalog_text (map record_values (fold upsert_row rs [])))
                  (ensure_csv_exists CSV_FILENAME fs))"
proof -
  from assms(2) obtain r rs' where rs: "rs = r # rs'" by (cases rs) auto
  let ?fs0 = "ensure_csv_exists CSV_FILENAME fs"
  let ?fs1 = "write_file csv_path (catalog_text (map record_values [r])) ?fs0"
  have 1: "update_metadata_csv csv_path r fs = (None, ?fs1)"
    using assms(1) update_metadata_csv_fresh[of fs csv_path r] by simp
  have a: "read_file ?fs1 csv_path = Some (catalog_text (map record_values [r]))"
    by (simp add: read_file_write_file)
  have b: "list_all record_within_limit [r]" "list_all record_within_limit rs'"
    using assms(3) rs by simp_all
  have "upsert_all csv_path rs' ?fs1 =
         (None, if rs' = [] then ?fs1
                else write_file csv_path
                       (catalog_text (map record_values (fold upsert_row rs' [r])))
                       (ensure_csv_exists CSV_FILENAME ?fs1))"
    using a b by (rule upsert_all_catalog[where fs = ?fs1 and acc = "[r]"])
  then have "upsert_all csv_path rs' ?fs1 =
         (None, if rs' = [] then ?fs1
                else write_file csv_path
                       (catalog_text (map record_values (fold upsert_row rs' [r]))) ?fs0)"
    by (simp only: ensure_csv_exists_idem write_file_twice)
  then show ?thesis
    unfolding rs by (cases "rs' = []") (simp_all add: 1 upsert_row_def)
qed




text \<open>
  So a call of \<open>update_metadata_csv\<close> ends normally, with \<open>_csv.Error\<close>, with \<open>KeyError\<close> or
  with \<open>ValueError\<close>.
\<close>

lemma other_rows_error: "other_rows key ds = Inl e \<Longrightarrow> e = KeyError"
  by (induction ds) (auto simp: dict_getitem_def split: option.splits sum.splits)

lemma writerows_error: "snd (writerows d ds) = Some e \<Longrightarrow> e = ValueError"
  by (induction ds) (auto split: if_splits prod.splits)

lemma update_metadata_csv_error:
  assumes "fst (update_metadata_csv csv_path r fs) = Some e"
  shows "e = CsvError \<or> e = KeyError \<or> e = ValueError"
proof -
  let ?fs1 = "ensure_csv_exists CSV_FILENAME fs"
  let ?loaded = "case read_file ?fs1 csv_path of
              None \<Rightarrow> Inr []
            | Some content \<Rightarrow>
                (case DictReader (CHR '';'') content of
                   Inl e \<Rightarrow> Inl e
                 | Inr rows \<Rightarrow> other_rows (ModArchiveID r) rows)"
  show ?thesis
  proof (cases ?loaded)
    case (Inl e')
    with assms have e: "e' = e" by (simp add: update_metadata_csv_def Let_def)
    from Inl obtain content where c: "read_file ?fs1 csv_path = Some content"
      by (cases "read_file ?fs1 csv_path") auto
    show ?thesis
    proof (cases "DictReader (CHR '';'') content")
      case l: (Inl e'')
      with Inl c have "e'' = e'" by simp
      with l e show ?thesis using DictReader_error by blast
    next
      case (Inr rows)
      with Inl have "other_rows (ModArchiveID r) rows = Inl e'"
        by (simp add: c)
      then show ?thesis using other_rows_error e by blast
    qed
  next
    case (Inr ds)
    with assms have "snd (writerows (CHR '';'') (ds @ [as_dict r])) = Some e"
      by (auto simp: update_metadata_csv_def Let_def split: prod.splits)
    then show ?thesis using writerows_error by blast
  qed
qed

lemma read_catalog_written:
  "read_file fs csv_path = Some (catalog_text rows) \<Longrightarrow> list_all (list_all within_limit) rows \<Longrightarrow>
   read_catalog csv_path fs = Some (fieldnames, rows)"
  by (simp add: read_catalog_def csv_reader_catalog_text)





lemma read_file_empty_directory: "read_file empty_directory path = None"
  by (simp add: read_file_def empty_directory_def)



lemma example_records_within_limit:
  "record_within_limit example_v1" "record_within_limit example_v2"
  "record_within_limit example_other"
  by (simp_all add: record_within_limit_def record_values_def within_limit_def
      field_size_limit_def example_v1_def example_v2_def example_other_def)

lemma comma_header_text:
  "writerow (CHR '','') fieldnames =
   ''ModArchiveID,Name,MD5,Format,Channels,Genre,Artist,RelativePath'' @ [CR, LF]"
  by (simp add: writerow_def fieldnames_def write_field_def needs_quotes_def)





text \<open>
  Claim C1: when the path does not exist, the creation step of the upsert creates the
  file with the header delimited by semicolons, and no data row. The code does not do
  that: \<open>ensure_csv_exists\<close> writes the header with the default delimiter of
  \<open>csv.writer\<close>, the comma, while the catalog is read and rewritten with the semicolon.
  Here the path is the catalog of the program, in a file system with no file: the header
  has commas, and read back with the semicolon it is one single field.
\<close>

theorem ensure_csv_exists_writes_commas:
  "read_file (ensure_csv_exists CSV_FILENAME \<lparr>locate = loc, files = Map.empty\<rparr>) CSV_FILENAME =
     Some (''ModArchiveID,Name,MD5,Format,Channels,Genre,Artist,RelativePath'' @ [CR, LF]) \<and>
   csv_reader (CHR '';'') (writerow (CHR '','') fieldnames) =
     Inr [[''ModArchiveID,Name,MD5,Format,Channels,Genre,Artist,RelativePath'']]"
proof -
  have "read_file \<lparr>locate = loc, files = Map.empty\<rparr> CSV_FILENAME = None"
    by (simp add: read_file_def)
  then have "read_file (ensure_csv_exists CSV_FILENAME \<lparr>locate = loc, files = Map.empty\<rparr>)
      CSV_FILENAME = Some (writerow (CHR '','') fieldnames)"
    by (simp add: read_file_ensure_csv_exists)
  then show ?thesis
    by (simp only: comma_header_text csv_reader_comma_header[unfolded comma_header_text] simp_thms)
qed









lemma catalog_example:
  "read_catalog CSV_FILENAME
     (snd (upsert_all CSV_FILENAME [example_v1, example_other, example_v2] empty_directory)) =
   Some (fieldnames, [record_values example_other, record_values example_v2])"
proof -
  let ?rs = "[example_v1, example_other, example_v2]"
  let ?fs' = "write_file CSV_FILENAME (catalog_text (map record_values [example_other, example_v2]))
                (ensure_csv_exists CSV_FILENAME empty_directory)"
  have f: "fold upsert_row ?rs [] = [example_other, example_v2]"
    by (simp add: upsert_row_def example_v1_def example_v2_def example_other_def)
  have "upsert_all CSV_FILENAME ?rs empty_directory =
        (None, write_file CSV_FILENAME (catalog_text (map record_values (fold upsert_row ?rs [])))
                 (ensure_csv_exists CSV_FILENAME empty_directory))"
    by (intro upsert_all_fresh) (simp_all add: read_file_empty_directory example_records_within_limit)
  then have u: "upsert_all CSV_FILENAME ?rs empty_directory = (None, ?fs')"
    by (simp only: f)
  have r: "read_catalog CSV_FILENAME ?fs' =
      Some (fieldnames, map record_values [example_other, example_v2])"
    by (intro read_catalog_written records_within_limit)
      (simp_all add: read_file_write_file example_records_within_limit)
  show ?thesis
    unfolding u using r by simp
qed

end
